theory Spec2Isabelle
  imports Complex_Main "HOL-Library.Word"
begin

section \<open>Data model\<close>

text \<open>
  \<^verbatim>\<open>export enum PixelSize { XS = 32, S = 64, M = 128, L = 256 }\<close> (src/types.ts, lines 1-6).
  The numeric value of a member is \<open>PixelSize_value\<close>.
\<close>

datatype PixelSize = XS | S | M | L

fun PixelSize_value :: "PixelSize \<Rightarrow> int" where
  "PixelSize_value XS = 32"
| "PixelSize_value S = 64"
| "PixelSize_value M = 128"
| "PixelSize_value L = 256"

text \<open>
  A grid is the TypeScript \<^verbatim>\<open>string[]\<close>: a row-major sequence of colour strings, the cell
  \<open>(x, y)\<close> at index \<open>y * size + x\<close>. The string \<^verbatim>\<open>'transparent'\<close> is the sentinel of an
  absent pixel.
\<close>

type_synonym grid = "string list"

abbreviation transparent :: string where
  "transparent \<equiv> ''transparent''"

section \<open>RLE codec: \<^verbatim>\<open>generateCodeSnippet\<close> (src/unnamed/part_000, lines 238-279)\<close>

text \<open>
  \<^verbatim>\<open>Array.from(new Set(xs))\<close>: a JavaScript \<^verbatim>\<open>Set\<close> keeps its elements in insertion
  order and \<^verbatim>\<open>add\<close> ignores a value already present. The set is modelled by the list of its
  elements in insertion order.
\<close>

definition Set_add :: "'a list \<Rightarrow> 'a \<Rightarrow> 'a list" where
  "Set_add s v = (if v \<in> set s then s else s @ [v])"

definition new_Set :: "'a list \<Rightarrow> 'a list" where
  "new_Set xs = foldl Set_add [] xs"

text \<open>
  \<^verbatim>\<open>Array.prototype.indexOf\<close>: the first index holding the value, \<open>-1\<close> when there is none.
\<close>

fun indexOf_from :: "'a list \<Rightarrow> 'a \<Rightarrow> int \<Rightarrow> int" where
  "indexOf_from [] v i = -1"
| "indexOf_from (x # xs) v i = (if x = v then i else indexOf_from xs v (i + 1))"

definition indexOf :: "'a list \<Rightarrow> 'a \<Rightarrow> int" where
  "indexOf xs v = indexOf_from xs v 0"

text \<open>
  The object \<^verbatim>\<open>output\<close> built at lines 270-276. \<^verbatim>\<open>generateCodeSnippet\<close> returns
  \<^verbatim>\<open>JSON.stringify(output, null, 0)\<close>; the model stops at the object, whose fields the
  serialisation writes out unchanged.
\<close>

record RLERecord =
  format :: string
  width :: int
  height :: int
  palette :: "string list"
  data :: "int list"

text \<open>
  The loop of lines 255-264 over \<^verbatim>\<open>rawIndices[1..]\<close>, with the loop variables
  \<^verbatim>\<open>currentVal\<close>, \<^verbatim>\<open>currentCount\<close> and the output array \<^verbatim>\<open>rleData\<close> passed along.
\<close>

fun rleLoop :: "int list \<Rightarrow> int \<Rightarrow> int \<Rightarrow> int list \<Rightarrow> int \<times> int \<times> int list" where
  "rleLoop [] currentVal currentCount rleData = (currentVal, currentCount, rleData)"
| "rleLoop (v # rest) currentVal currentCount rleData =
     (if v = currentVal then rleLoop rest currentVal (currentCount + 1) rleData
      else rleLoop rest v 1 (rleData @ [currentVal, currentCount]))"

text \<open>Lines 250-268: nothing for an empty input, otherwise the loop and the push of the last run.\<close>

definition rleData_of :: "int list \<Rightarrow> int list" where
  "rleData_of rawIndices =
     (case rawIndices of
        [] \<Rightarrow> []
      | v0 # rest \<Rightarrow>
          (case rleLoop rest v0 1 [] of
             (currentVal, currentCount, rleData) \<Rightarrow> rleData @ [currentVal, currentCount]))"

definition generateCodeSnippet :: "grid \<Rightarrow> PixelSize \<Rightarrow> RLERecord" where
  "generateCodeSnippet grid sz =
     (let pal = new_Set (filter (\<lambda>c. c \<noteq> transparent) grid);
          rawIndices = map (\<lambda>color. if color = transparent then -1 else indexOf pal color) grid
      in \<lparr> format = ''RLE (Value, Count)'',
           width = PixelSize_value sz,
           height = PixelSize_value sz,
           palette = pal,
           data = rleData_of rawIndices \<rparr>)"

subsection \<open>Decoding\<close>

text \<open>
  Modelled from the spec: the repository has no decoder; \<open>decode\<close> follows section 4.3 and
  section 7 of the specification. Each \<open>(value, count)\<close> pair of \<open>data\<close> is expanded by
  repeating \<open>value\<close> \<open>count\<close> times (a count below one repeats nothing, and a value left
  without its count is a malformed record); the sentinel \<open>-1\<close> is translated to
  \<^verbatim>\<open>'transparent'\<close> and every other value through the palette, an index outside the palette
  being a \<open>RecordFormatError\<close>; a reconstructed length other than \<open>width * height\<close> is a
  \<open>RecordFormatError\<close>.
\<close>

datatype codec_error = RecordFormatError

fun expandRuns :: "int list \<Rightarrow> codec_error + int list" where
  "expandRuns [] = Inr []"
| "expandRuns [v] = Inl RecordFormatError"
| "expandRuns (v # c # rest) =
     (case expandRuns rest of
        Inl e \<Rightarrow> Inl e
      | Inr xs \<Rightarrow> Inr (replicate (nat c) v @ xs))"

definition fromIndex :: "string list \<Rightarrow> int \<Rightarrow> codec_error + string" where
  "fromIndex pal v =
     (if v = -1 then Inr transparent
      else if 0 \<le> v \<and> v < int (length pal) then Inr (pal ! nat v)
      else Inl RecordFormatError)"

fun fromIndices :: "string list \<Rightarrow> int list \<Rightarrow> codec_error + grid" where
  "fromIndices pal [] = Inr []"
| "fromIndices pal (v # vs) =
     (case fromIndex pal v of
        Inl e \<Rightarrow> Inl e
      | Inr c \<Rightarrow> (case fromIndices pal vs of Inl e \<Rightarrow> Inl e | Inr cs \<Rightarrow> Inr (c # cs)))"

definition decode :: "RLERecord \<Rightarrow> codec_error + grid" where
  "decode r =
     (case expandRuns (data r) of
        Inl e \<Rightarrow> Inl e
      | Inr indices \<Rightarrow>
          (case fromIndices (palette r) indices of
             Inl e \<Rightarrow> Inl e
           | Inr g \<Rightarrow> if int (length g) = width r * height r then Inr g else Inl RecordFormatError))"

section \<open>Quantizer: \<^verbatim>\<open>processImageToGrid\<close> (src/unnamed/part_000, lines 137-205)\<close>

text \<open>
  \<^verbatim>\<open>imageData.data\<close> is a \<^verbatim>\<open>Uint8ClampedArray\<close>: a flat sequence of bytes, four (red, green,
  blue, alpha) for each pixel of the resampled canvas, row by row.
\<close>

type_synonym byte = "8 word"

text \<open>
  \<^verbatim>\<open>Number.prototype.toString(16)\<close> on a non-negative integer: lower-case digits, no leading
  zero.
\<close>

definition hexDigit :: "nat \<Rightarrow> char" where
  "hexDigit d = ''0123456789abcdef'' ! d"

fun toString16 :: "nat \<Rightarrow> string" where
  "toString16 n = (if n < 16 then [hexDigit n] else toString16 (n div 16) @ [hexDigit (n mod 16)])"

declare toString16.simps [simp del]

text \<open>
  \<^verbatim>\<open>"#" + ((1 << 24) + (r << 16) + (g << 8) + b).toString(16).slice(1)\<close>. The channels are
  bytes, so no shift leaves the 32-bit range of \<^verbatim>\<open><<\<close>.
\<close>

definition rgbToHex :: "byte \<Rightarrow> byte \<Rightarrow> byte \<Rightarrow> string" where
  "rgbToHex r g b =
     CHR ''#'' # drop 1 (toString16 (push_bit 24 1 + push_bit 16 (unat r) + push_bit 8 (unat g) + unat b))"

text \<open>
  Lines 180-184, the variable \<^verbatim>\<open>dist\<close>: the Euclidean distance of a pixel from the
  background colour. The squares and their sum are small integers, exact in double arithmetic,
  and the comparison of the rounded square root with 60 has the outcome of the exact one: the
  sum is an integer, and the square root of 3600 is exactly 60.
\<close>

definition dist_rgb :: "byte \<Rightarrow> byte \<Rightarrow> byte \<Rightarrow> byte \<times> byte \<times> byte \<Rightarrow> real" where
  "dist_rgb r g b bg =
     (case bg of (rBg, gBg, bBg) \<Rightarrow>
        sqrt (real_of_int ((uint r - uint rBg)\<^sup>2 + (uint g - uint gBg)\<^sup>2 + (uint b - uint bBg)\<^sup>2)))"

definition threshold :: real where
  "threshold = 60"

text \<open>
  Line 186, \<^verbatim>\<open>const isBg = dist < threshold\<close>, and the rest of the body of the loop,
  lines 174-193. The alpha byte is absent (\<open>None\<close>, the \<^verbatim>\<open>undefined\<close> of a read past the
  end) when only three bytes are left; \<^verbatim>\<open>undefined < 50\<close> is false.
\<close>

definition isBg :: "byte \<Rightarrow> byte \<Rightarrow> byte \<Rightarrow> byte \<times> byte \<times> byte \<Rightarrow> bool" where
  "isBg r g b bg = (dist_rgb r g b bg < threshold)"

definition classify :: "byte \<times> byte \<times> byte \<Rightarrow> byte \<Rightarrow> byte \<Rightarrow> byte \<Rightarrow> byte option \<Rightarrow> string" where
  "classify bg r g b a =
     (if (case a of None \<Rightarrow> False | Some a' \<Rightarrow> uint a' < 50) \<or> isBg r g b bg then transparent
      else rgbToHex r g b)"

text \<open>
  The loop of lines 173-194, four bytes at a step. The canvas gives \<open>4 * size * size\<close> bytes,
  so the loop ends on the first equation or on the empty list. The other two equations are what
  the reads past the end of a shorter array produce: with the blue channel \<^verbatim>\<open>undefined\<close> the
  distance is \<^verbatim>\<open>NaN\<close>, no comparison holds, and \<^verbatim>\<open>rgbToHex\<close> adds \<^verbatim>\<open>undefined\<close> to a
  number, which prints as \<^verbatim>\<open>"NaN"\<close>.
\<close>

fun hexGridLoop :: "byte \<times> byte \<times> byte \<Rightarrow> byte list \<Rightarrow> grid" where
  "hexGridLoop bg (r # g # b # a # rest) = classify bg r g b (Some a) # hexGridLoop bg rest"
| "hexGridLoop bg [r, g, b] = [classify bg r g b None]"
| "hexGridLoop bg [] = []"
| "hexGridLoop bg _ = [''#aN'']"

text \<open>
  Lines 163-165: the background colour is the first pixel. An array shorter than three bytes
  has no such pixel and never reaches \<open>classify\<close>.
\<close>

definition background :: "byte list \<Rightarrow> byte \<times> byte \<times> byte" where
  "background d = (case d of rBg # gBg # bBg # _ \<Rightarrow> (rBg, gBg, bBg) | _ \<Rightarrow> (0, 0, 0))"

definition hexGrid_of :: "byte list \<Rightarrow> grid" where
  "hexGrid_of d = hexGridLoop (background d) d"

text \<open>
  What the browser does for \<^verbatim>\<open>processImageToGrid\<close>: the image fails to load
  (\<^verbatim>\<open>img.onerror\<close>), or it loads and the canvas has no 2D context, or it loads and
  \<^verbatim>\<open>drawImage\<close> followed by \<^verbatim>\<open>getImageData(0, 0, size, size)\<close> gives the bytes of the
  resampled image. The promise rejects in the first two cases and resolves with the grid in the
  third.
\<close>

datatype browser = ImageError | NoContext | ImageData "byte list"

datatype quantize_error = LoadError | CanvasContextError

definition processImageToGrid :: "browser \<Rightarrow> quantize_error + grid" where
  "processImageToGrid env =
     (case env of
        ImageError \<Rightarrow> Inl LoadError
      | NoContext \<Rightarrow> Inl CanvasContextError
      | ImageData d \<Rightarrow> Inr (hexGrid_of d))"

section \<open>Canvas editor: \<^verbatim>\<open>CanvasPreview\<close> (src/types.ts, lines 39-186)\<close>

subsection \<open>Tool state\<close>

text \<open>
  \<^verbatim>\<open>type ToolType = 'pencil' | 'eraser' | 'magic-eraser' | 'none'\<close> and the three
  \<^verbatim>\<open>useState\<close> cells of lines 49-51, with their initial values.
\<close>

datatype ToolType = pencil | eraser | magic_eraser | none

record ToolState =
  activeTool :: ToolType
  brushSize :: int
  drawColor :: string

definition initialToolState :: ToolState where
  "initialToolState = \<lparr> activeTool = none, brushSize = 1, drawColor = ''#ffffff'' \<rparr>"

text \<open>
  The effect of lines 65-72, run whenever the \<^verbatim>\<open>grid\<close> prop changes: with a grid present the
  tool becomes the pencil and, when \<^verbatim>\<open>grid.find(c => c !== 'transparent')\<close> gives a truthy
  string (one that is not empty), the draw colour becomes that string. Nothing else is set.
  The effect only reads the grid, which enters here by value.
\<close>

definition gridEffect :: "grid option \<Rightarrow> ToolState \<Rightarrow> ToolState" where
  "gridEffect grid ts =
     (case grid of
        None \<Rightarrow> ts
      | Some g \<Rightarrow>
          (let ts' = ts\<lparr> activeTool := pencil \<rparr>
           in case find (\<lambda>c. c \<noteq> transparent) g of
                None \<Rightarrow> ts'
              | Some firstColor \<Rightarrow> if firstColor \<noteq> [] then ts'\<lparr> drawColor := firstColor \<rparr> else ts'))"

subsection \<open>Viewport scale\<close>

text \<open>
  The effect of lines 55-62. The container is absent (\<open>None\<close>) or has a bounding rectangle of
  some width and height; these are doubles, modelled as real numbers, the rounding of double
  arithmetic left out. With no container the scale keeps its value.
\<close>

definition autoFit :: "(real \<times> real) option \<Rightarrow> PixelSize \<Rightarrow> int \<Rightarrow> int" where
  "autoFit container sz scale =
     (case container of
        None \<Rightarrow> scale
      | Some (w, h) \<Rightarrow>
          (let maxDim = min w h - 64;
               newScale = max 1 \<lfloor>maxDim / real_of_int (PixelSize_value sz)\<rfloor>
           in newScale))"

subsection \<open>Arrays and the store\<close>

text \<open>
  A JavaScript array of strings: a slot holds a string or \<^verbatim>\<open>undefined\<close> (\<open>None\<close>). A read
  past the end gives \<^verbatim>\<open>undefined\<close>; an assignment past the end extends the array, the slots
  in between reading as \<^verbatim>\<open>undefined\<close>.
\<close>

type_synonym jsarr = "string option list"

definition arr_get :: "jsarr \<Rightarrow> nat \<Rightarrow> string option" where
  "arr_get a i = (if i < length a then a ! i else None)"

definition arr_set :: "jsarr \<Rightarrow> nat \<Rightarrow> string \<Rightarrow> jsarr" where
  "arr_set a i v =
     (if i < length a then a[i := Some v] else a @ replicate (i - length a) None @ [Some v])"

text \<open>
  Arrays are objects with identity: the store is the sequence of the arrays allocated so far, an
  array reference is a position in it, and a new array is appended.
\<close>

type_synonym store = "jsarr list"

type_synonym ref = nat

definition store_set :: "store \<Rightarrow> ref \<Rightarrow> nat \<Rightarrow> string \<Rightarrow> store" where
  "store_set s a i v = s[a := arr_set (s ! a) i v]"

subsection \<open>\<^verbatim>\<open>applyTool\<close> (lines 128-170)\<close>

text \<open>
  The loop of lines 138-142 over the array \<^verbatim>\<open>newGrid\<close>, from index \<open>i\<close> on.
\<close>

function magicLoop :: "store \<Rightarrow> ref \<Rightarrow> string option \<Rightarrow> nat \<Rightarrow> store" where
  "magicLoop s newGrid targetColor i =
     (if i < length (s ! newGrid) then
        magicLoop
          (if arr_get (s ! newGrid) i = targetColor then store_set s newGrid i transparent else s)
          newGrid targetColor (i + 1)
      else s)"
  by pat_completeness auto
termination
proof (relation "measure (\<lambda>(s, newGrid, targetColor, i). length (s ! newGrid) - i)")
  show "wf (measure (\<lambda>(s, newGrid, targetColor, i). length (s ! newGrid) - i))"
    by simp
next
  fix s :: store and newGrid :: ref and targetColor :: "string option" and i :: nat
  assume less: "i < length (s ! newGrid)"
  have "length (store_set s newGrid i transparent ! newGrid) = length (s ! newGrid)"
  proof (cases "newGrid < length s")
    case True
    with less show ?thesis by (simp add: store_set_def arr_set_def)
  next
    case False
    then show ?thesis by (simp add: store_set_def list_update_beyond)
  qed
  with less show
    "((if arr_get (s ! newGrid) i = targetColor then store_set s newGrid i transparent else s,
       newGrid, targetColor, i + 1), (s, newGrid, targetColor, i))
     \<in> measure (\<lambda>(s, newGrid, targetColor, i). length (s ! newGrid) - i)"
    by auto
qed

declare magicLoop.simps [simp del]

text \<open>
  Line 157: \<^verbatim>\<open>const newColor = activeTool === 'pencil' ? drawColor : 'transparent'\<close>.
\<close>

definition newColor :: "ToolState \<Rightarrow> string" where
  "newColor ts = (if activeTool ts = pencil then drawColor ts else transparent)"

text \<open>
  The body of the inner loop, lines 155-162, on the pair of the store and \<^verbatim>\<open>hasChanged\<close>.
\<close>

definition brushCell :: "store \<times> bool \<Rightarrow> ref \<Rightarrow> int \<Rightarrow> ToolState \<Rightarrow> int \<Rightarrow> int \<Rightarrow> store \<times> bool" where
  "brushCell st newGrid sz ts py px =
     (case st of (s, hasChanged) \<Rightarrow>
        if px \<ge> 0 \<and> px < sz \<and> py \<ge> 0 \<and> py < sz then
          (let idx = nat (py * sz + px)
           in if arr_get (s ! newGrid) idx \<noteq> Some (newColor ts)
              then (store_set s newGrid idx (newColor ts), True)
              else (s, hasChanged))
        else (s, hasChanged))"

text \<open>The inner loop, line 154, from \<open>px\<close> on.\<close>

function brushLoopX :: "store \<times> bool \<Rightarrow> ref \<Rightarrow> int \<Rightarrow> ToolState \<Rightarrow> int \<Rightarrow> int \<Rightarrow> int \<Rightarrow> store \<times> bool" where
  "brushLoopX st newGrid sz ts py px endX =
     (if px < endX then brushLoopX (brushCell st newGrid sz ts py px) newGrid sz ts py (px + 1) endX
      else st)"
  by pat_completeness auto
termination
  by (relation "measure (\<lambda>(st, newGrid, sz, ts, py, px, endX). nat (endX - px))") auto

declare brushLoopX.simps [simp del]

text \<open>The outer loop, line 153, from \<open>py\<close> on.\<close>

function brushLoopY :: "store \<times> bool \<Rightarrow> ref \<Rightarrow> int \<Rightarrow> ToolState \<Rightarrow> int \<Rightarrow> int \<Rightarrow> int \<Rightarrow> int \<Rightarrow> store \<times> bool" where
  "brushLoopY st newGrid sz ts startX endX py endY =
     (if py < endY then
        brushLoopY (brushLoopX st newGrid sz ts py startX endX) newGrid sz ts startX endX (py + 1) endY
      else st)"
  by pat_completeness auto
termination
  by (relation "measure (\<lambda>(st, newGrid, sz, ts, startX, endX, py, endY). nat (endY - py))") auto

declare brushLoopY.simps [simp del]

text \<open>
  \<^verbatim>\<open>applyTool(x, y)\<close>, a closure over the props \<^verbatim>\<open>grid\<close> (a reference to an array, or
  \<^verbatim>\<open>null\<close>) and \<^verbatim>\<open>size\<close> (here \<open>sz\<close>, of value \<open>n\<close>) and over the tool state.
  \<^verbatim>\<open>[...grid]\<close> allocates the array \<^verbatim>\<open>newGrid\<close> with the slots of \<^verbatim>\<open>grid\<close>. The result
  is the store afterwards and the argument of the call \<^verbatim>\<open>onGridUpdate(newGrid)\<close>, or
  \<open>None\<close> when \<^verbatim>\<open>onGridUpdate\<close> is not called.
\<close>

definition applyTool :: "store \<Rightarrow> ref option \<Rightarrow> PixelSize \<Rightarrow> ToolState \<Rightarrow> int \<Rightarrow> int \<Rightarrow> store \<times> ref option" where
  "applyTool s grid sz ts x y =
     (case grid of
        None \<Rightarrow> (s, None)
      | Some g \<Rightarrow>
          (let n = PixelSize_value sz
           in if x < 0 \<or> x \<ge> n \<or> y < 0 \<or> y \<ge> n then (s, None)
              else
                (let index = nat (y * n + x);
                     newGrid = length s;
                     s0 = s @ [s ! g];
                     (s1, hasChanged) =
                       (if activeTool ts = magic_eraser then
                          (let targetColor = arr_get (s0 ! g) index
                           in if targetColor \<noteq> Some transparent
                              then (magicLoop s0 newGrid targetColor 0, True)
                              else (s0, False))
                        else
                          (let halfBrush = brushSize ts div 2;
                               startX = x - halfBrush;
                               startY = y - halfBrush;
                               endX = startX + brushSize ts;
                               endY = startY + brushSize ts
                           in brushLoopY (s0, False) newGrid n ts startX endX startY endY))
                 in (s1, if hasChanged then Some newGrid else None))))"

subsection \<open>Notions used to state the results about \<^verbatim>\<open>applyTool\<close>\<close>

text \<open>
  These three are not part of the program. \<open>cellsOf n X0 X1 Y0 Y1\<close> is the set of the indices
  of the cells \<open>(cx, cy)\<close> of an \<open>n\<close> by \<open>n\<close> grid with \<open>X0 \<le> cx < X1\<close> and
  \<open>Y0 \<le> cy < Y1\<close>; \<open>paintCells c C A\<close> is the array \<open>A\<close> with the colour \<open>c\<close> in the slots
  of \<open>C\<close>; \<open>painted s a A c C\<close> is the state of the brush loops once the cells \<open>C\<close> of the
  array at \<open>a\<close>, which held \<open>A\<close>, have been visited.
\<close>

definition cellsOf :: "int \<Rightarrow> int \<Rightarrow> int \<Rightarrow> int \<Rightarrow> int \<Rightarrow> nat set" where
  "cellsOf n X0 X1 Y0 Y1 =
     {nat (cy * n + cx) | cx cy.
        X0 \<le> cx \<and> cx < X1 \<and> Y0 \<le> cy \<and> cy < Y1 \<and> 0 \<le> cx \<and> cx < n \<and> 0 \<le> cy \<and> cy < n}"

definition paintCells :: "string \<Rightarrow> nat set \<Rightarrow> jsarr \<Rightarrow> jsarr" where
  "paintCells c C A = map (\<lambda>i. if i \<in> C then Some c else A ! i) [0..<length A]"

definition painted :: "store \<Rightarrow> ref \<Rightarrow> jsarr \<Rightarrow> string \<Rightarrow> nat set \<Rightarrow> store \<times> bool" where
  "painted s a A c C = (s[a := paintCells c C A], \<exists>i\<in>C. i < length A \<and> A ! i \<noteq> Some c)"

section \<open>Properties of the RLE codec\<close>

lemma indexOf_from_mem:
  "v \<in> set xs \<Longrightarrow> \<exists>k < length xs. indexOf_from xs v i = i + int k \<and> xs ! k = v"
proof (induction xs arbitrary: i)
  case Nil
  then show ?case by simp
next
  case (Cons x xs)
  show ?case
  proof (cases "x = v")
    case True
    then show ?thesis by auto
  next
    case False
    with Cons.prems have "v \<in> set xs" by simp
    from Cons.IH[OF this, of "i + 1"] obtain k where
      "k < length xs" "indexOf_from xs v (i + 1) = i + 1 + int k" "xs ! k = v"
      by blast
    with False show ?thesis by (intro exI[of _ "Suc k"]) auto
  qed
qed

lemma set_foldl_Set_add: "set (foldl Set_add acc xs) = set acc \<union> set xs"
  by (induction xs arbitrary: acc) (auto simp: Set_add_def)

lemma set_new_Set: "set (new_Set xs) = set xs"
  by (simp add: new_Set_def set_foldl_Set_add)

lemma fromIndex_indexOf: "c \<in> set pal \<Longrightarrow> fromIndex pal (indexOf pal c) = Inr c"
  using indexOf_from_mem[of c pal 0] by (auto simp: fromIndex_def indexOf_def)

lemma fromIndices_rawIndices:
  "\<forall>c \<in> set g. c \<noteq> transparent \<longrightarrow> c \<in> set pal \<Longrightarrow>
   fromIndices pal (map (\<lambda>color. if color = transparent then -1 else indexOf pal color) g) = Inr g"
proof (induction g)
  case Nil
  then show ?case by simp
next
  case (Cons c g)
  have "fromIndex pal (if c = transparent then -1 else indexOf pal c) = Inr c"
  proof (cases "c = transparent")
    case True
    then show ?thesis by (simp add: fromIndex_def)
  next
    case False
    with Cons.prems show ?thesis by (simp add: fromIndex_indexOf)
  qed
  with Cons show ?case by simp
qed

lemma expandRuns_append:
  "even (length xs) \<Longrightarrow> expandRuns xs = Inr a \<Longrightarrow>
   expandRuns (xs @ [v, c]) = Inr (a @ replicate (nat c) v)"
proof (induction xs arbitrary: a rule: expandRuns.induct)
  case 1
  then show ?case by simp
next
  case (2 v)
  then show ?case by simp
next
  case (3 v c rest)
  then show ?case by (auto split: sum.splits)
qed

lemma rleLoop_expand:
  "rleLoop vs cv cc out = (cv', cc', out') \<Longrightarrow> even (length out) \<Longrightarrow> 0 \<le> cc \<Longrightarrow>
   expandRuns out = Inr a \<Longrightarrow>
   expandRuns (out' @ [cv', cc']) = Inr (a @ replicate (nat cc) cv @ vs)"
proof (induction vs cv cc out arbitrary: a rule: rleLoop.induct)
  case (1 cv cc out)
  then show ?case by (simp add: expandRuns_append)
next
  case (2 v rest cv cc out)
  show ?case
  proof (cases "v = cv")
    case True
    with 2 have "expandRuns (out' @ [cv', cc']) = Inr (a @ replicate (nat (cc + 1)) cv @ rest)"
      by simp
    moreover have "replicate (nat (cc + 1)) cv = replicate (nat cc) cv @ [cv]"
      using 2(5) by (simp add: nat_add_distrib replicate_append_same)
    ultimately show ?thesis using True by simp
  next
    case False
    have "expandRuns (out @ [cv, cc]) = Inr (a @ replicate (nat cc) cv)"
      using 2 by (simp add: expandRuns_append)
    with 2(2)[OF False _ _ _ this] 2(3,4) False show ?thesis by simp
  qed
qed

lemma expandRuns_rleData_of: "expandRuns (rleData_of xs) = Inr xs"
proof (cases xs)
  case Nil
  then show ?thesis by (simp add: rleData_of_def)
next
  case (Cons v0 rest)
  obtain cv cc out where r: "rleLoop rest v0 1 [] = (cv, cc, out)"
    by (cases "rleLoop rest v0 1 []") auto
  from rleLoop_expand[OF r, of "[]"] have "expandRuns (out @ [cv, cc]) = Inr (v0 # rest)"
    by simp
  with r Cons show ?thesis by (simp add: rleData_of_def)
qed

lemma decode_generateCodeSnippet:
  assumes "int (length g) = PixelSize_value sz * PixelSize_value sz"
  shows "decode (generateCodeSnippet g sz) = Inr g"
proof -
  let ?pal = "new_Set (filter (\<lambda>c. c \<noteq> transparent) g)"
  have "fromIndices ?pal (map (\<lambda>color. if color = transparent then -1 else indexOf ?pal color) g) = Inr g"
    by (rule fromIndices_rawIndices) (simp add: set_new_Set)
  with assms show ?thesis
    by (simp add: decode_def generateCodeSnippet_def Let_def expandRuns_rleData_of)
qed

lemma rleLoop_replicate: "rleLoop (replicate k v) v c out = (v, c + int k, out)"
  by (induction k arbitrary: c) auto

text \<open>
  Claim C1. For every grid whose length is the square of the resolution, decoding the record
  that \<open>generateCodeSnippet\<close> builds gives back exactly that grid: the runs expand to the
  index sequence, every index other than \<open>-1\<close> is translated through the record's palette,
  \<open>-1\<close> becomes \<^verbatim>\<open>'transparent'\<close>, and the length check passes.
\<close>

theorem rle_roundtrip:
  "int (length g) = PixelSize_value sz * PixelSize_value sz \<Longrightarrow>
   decode (generateCodeSnippet g sz) = Inr g"
  by (rule decode_generateCodeSnippet)

theorem rle_roundtrip_witness:
  "int (length (''#00ff00'' # ''#00ff00'' # replicate 1022 transparent)) = PixelSize_value XS * PixelSize_value XS \<and>
   decode (generateCodeSnippet (''#00ff00'' # ''#00ff00'' # replicate 1022 transparent) XS)
     = Inr (''#00ff00'' # ''#00ff00'' # replicate 1022 transparent)"
  using rle_roundtrip[of "''#00ff00'' # ''#00ff00'' # replicate 1022 transparent" XS] by simp

lemma scenario_grid: "(replicate 1024 transparent)[0 := ''#ff0000''] = ''#ff0000'' # replicate 1023 transparent"
proof -
  have "replicate 1024 transparent = transparent # replicate 1023 transparent"
    by (simp only: replicate_Suc[symmetric]) simp
  then show ?thesis by simp
qed

text \<open>
  Claim C6. For the 32 by 32 grid that is transparent everywhere except for \<^verbatim>\<open>"#ff0000"\<close>
  in cell \<open>(0, 0)\<close>, the record has the palette \<^verbatim>\<open>["#ff0000"]\<close> and the data
  \<^verbatim>\<open>[0, 1, -1, 1023]\<close>, and decoding that record gives the grid back.
\<close>

theorem rle_scenario:
  "generateCodeSnippet ((replicate 1024 transparent)[0 := ''#ff0000'']) XS =
     \<lparr> format = ''RLE (Value, Count)'', width = 32, height = 32,
       palette = [''#ff0000''], data = [0, 1, -1, 1023] \<rparr> \<and>
   decode \<lparr> format = ''RLE (Value, Count)'', width = 32, height = 32,
       palette = [''#ff0000''], data = [0, 1, -1, 1023] \<rparr> = Inr ((replicate 1024 transparent)[0 := ''#ff0000''])"
proof -
  let ?g = "''#ff0000'' # replicate 1023 transparent"
  have enc: "generateCodeSnippet ?g XS =
     \<lparr> format = ''RLE (Value, Count)'', width = 32, height = 32,
       palette = [''#ff0000''], data = [0, 1, -1, 1023] \<rparr>"
  proof -
    have "replicate 1023 (-1::int) = -1 # replicate 1022 (-1)"
      by (simp only: replicate_Suc[symmetric]) simp
    then have "rleData_of (0 # replicate 1023 (-1)) = [0, 1, -1, 1023]"
      by (simp add: rleData_of_def rleLoop_replicate)
    then show ?thesis
      by (simp add: generateCodeSnippet_def Let_def new_Set_def Set_add_def indexOf_def)
  qed
  have "decode (generateCodeSnippet ?g XS) = Inr ?g"
    by (rule decode_generateCodeSnippet) simp
  with enc show ?thesis by (simp only: scenario_grid)
qed

section \<open>Properties of the quantizer\<close>

lemma isBg_iff [code]:
  "isBg r g b bg =
     (case bg of (rBg, gBg, bBg) \<Rightarrow>
        (uint r - uint rBg)\<^sup>2 + (uint g - uint gBg)\<^sup>2 + (uint b - uint bBg)\<^sup>2 < 3600)"
proof -
  obtain rBg gBg bBg where bg: "bg = (rBg, gBg, bBg)" by (cases bg) auto
  let ?q = "(uint r - uint rBg)\<^sup>2 + (uint g - uint gBg)\<^sup>2 + (uint b - uint bBg)\<^sup>2"
  have "sqrt 3600 = (60::real)"
    using real_sqrt_abs[of 60] by simp
  then have "sqrt (real_of_int ?q) < 60 \<longleftrightarrow> sqrt (real_of_int ?q) < sqrt 3600"
    by simp
  also have "\<dots> \<longleftrightarrow> real_of_int ?q < 3600"
    by (rule real_sqrt_less_iff)
  also have "\<dots> \<longleftrightarrow> ?q < 3600"
    using of_int_less_iff[of ?q 3600, where ?'a = real] by simp
  finally show ?thesis by (simp add: isBg_def dist_rgb_def threshold_def bg)
qed

lemma isBg_self: "isBg r g b (r, g, b)"
  by (simp add: isBg_iff)

lemma rgbToHex_not_transparent: "rgbToHex r g b \<noteq> transparent"
  by (simp add: rgbToHex_def)

lemma classify_transparent_iff:
  "classify bg r g b (Some a) = transparent \<longleftrightarrow> uint a < 50 \<or> isBg r g b bg"
  by (simp add: classify_def rgbToHex_not_transparent)

lemma list_four: "4 \<le> length d \<Longrightarrow> \<exists>r g b a rest. d = r # g # b # a # rest"
  by (auto simp: Suc_le_length_iff numeral_eq_Suc)

lemma hexGridLoop_length: "length (d :: byte list) = 4 * m \<Longrightarrow> length (hexGridLoop bg d) = m"
proof (induction m arbitrary: d)
  case 0
  then show ?case by simp
next
  case (Suc m)
  then obtain r g b a rest where d: "d = r # g # b # a # rest"
    using list_four[of d] by auto
  with Suc show ?case by simp
qed

lemma hexGridLoop_nth:
  "length (d :: byte list) = 4 * m \<Longrightarrow> k < m \<Longrightarrow>
   hexGridLoop bg d ! k =
     classify bg (d ! (4 * k)) (d ! (4 * k + 1)) (d ! (4 * k + 2)) (Some (d ! (4 * k + 3)))"
proof (induction m arbitrary: d k)
  case 0
  then show ?case by simp
next
  case (Suc m)
  then obtain r g b a rest where d: "d = r # g # b # a # rest"
    using list_four[of d] by auto
  show ?case
  proof (cases k)
    case 0
    with d show ?thesis by simp
  next
    case (Suc j)
    with Suc.prems d have "length rest = 4 * m" "j < m" by simp_all
    from Suc.IH[OF this] show ?thesis using d Suc by (simp add: numeral_eq_Suc)
  qed
qed

lemma background_nth: "3 \<le> length (d :: byte list) \<Longrightarrow> background d = (d ! 0, d ! 1, d ! 2)"
  by (auto simp: background_def Suc_le_length_iff numeral_eq_Suc)

lemma toString16_digit: "n < 16 \<Longrightarrow> toString16 n = [hexDigit n]"
  by (simp add: toString16.simps[of n])

lemma toString16_shift:
  "0 < m \<Longrightarrow> d < 16 \<Longrightarrow> toString16 (16 * m + d) = toString16 m @ [hexDigit d]"
  by (simp add: toString16.simps[of "16 * m + d"])

lemma rgbToHex_digits:
  "rgbToHex r g b =
     [CHR ''#'', hexDigit (unat r div 16), hexDigit (unat r mod 16),
      hexDigit (unat g div 16), hexDigit (unat g mod 16),
      hexDigit (unat b div 16), hexDigit (unat b mod 16)]"
proof -
  have bound: "unat x div 16 < 16" for x :: byte
    using unsigned_less[of x, where ?'a = nat] by simp
  define m5 where "m5 = 16 * 1 + unat r div 16"
  define m4 where "m4 = 16 * m5 + unat r mod 16"
  define m3 where "m3 = 16 * m4 + unat g div 16"
  define m2 where "m2 = 16 * m3 + unat g mod 16"
  define m1 where "m1 = 16 * m2 + unat b div 16"
  have pos: "0 < m5" "0 < m4" "0 < m3" "0 < m2" "0 < m1"
    by (simp_all add: m5_def m4_def m3_def m2_def m1_def)
  have "push_bit 24 1 + push_bit 16 (unat r) + push_bit 8 (unat g) + unat b =
      16 * m1 + unat b mod 16"
    by (simp add: push_bit_eq_mult m5_def m4_def m3_def m2_def m1_def)
  then have "toString16 (push_bit 24 1 + push_bit 16 (unat r) + push_bit 8 (unat g) + unat b) =
      toString16 m1 @ [hexDigit (unat b mod 16)]"
    using pos by (simp add: toString16_shift[of m1 "unat b mod 16"])
  also have "toString16 m1 = toString16 m2 @ [hexDigit (unat b div 16)]"
    unfolding m1_def using pos bound by (intro toString16_shift) simp_all
  also have "toString16 m2 = toString16 m3 @ [hexDigit (unat g mod 16)]"
    unfolding m2_def using pos by (intro toString16_shift) simp_all
  also have "toString16 m3 = toString16 m4 @ [hexDigit (unat g div 16)]"
    unfolding m3_def using pos bound by (intro toString16_shift) simp_all
  also have "toString16 m4 = toString16 m5 @ [hexDigit (unat r mod 16)]"
    unfolding m4_def using pos by (intro toString16_shift) simp_all
  also have "toString16 m5 = toString16 1 @ [hexDigit (unat r div 16)]"
    unfolding m5_def using bound by (intro toString16_shift) simp_all
  also have "toString16 1 = [hexDigit 1]"
    by (rule toString16_digit) simp
  finally show ?thesis by (simp add: rgbToHex_def)
qed

lemma rgbToHex_red: "rgbToHex 255 0 0 = ''#ff0000''"
  by (simp add: rgbToHex_digits hexDigit_def)

text \<open>
  Claim C2. Let the canvas give \<open>4 * size * size\<close> bytes \<open>d\<close> and let \<open>k\<close> be a pixel of
  it, with the bytes \<open>r\<close>, \<open>g\<close>, \<open>b\<close>, \<open>a\<close> at \<open>4 * k\<close> to \<open>4 * k + 3\<close>; the background
  reference is pixel 0, the bytes \<open>d ! 0\<close>, \<open>d ! 1\<close>, \<open>d ! 2\<close>. The promise resolves with a grid
  of \<open>size * size\<close> cells. Cell \<open>k\<close> is \<^verbatim>\<open>'transparent'\<close> exactly when \<open>a\<close> is below 50 or the
  Euclidean distance, the square root of the sum of the squares of the three channel
  differences, is below 60; that is, when the sum of the squares is below 3600. Otherwise the
  cell is \<^verbatim>\<open>#\<close> followed by the two lower-case hexadecimal digits of \<open>r\<close>, of \<open>g\<close> and of
  \<open>b\<close>.
\<close>

theorem quantizer_classification:
  assumes "int (length d) = 4 * (PixelSize_value sz * PixelSize_value sz)"
    and "int k < PixelSize_value sz * PixelSize_value sz"
  shows "\<exists>grid. processImageToGrid (ImageData d) = Inr grid \<and>
     int (length grid) = PixelSize_value sz * PixelSize_value sz \<and>
     (grid ! k = transparent \<longleftrightarrow>
        uint (d ! (4 * k + 3)) < 50 \<or>
        sqrt (real_of_int ((uint (d ! (4 * k)) - uint (d ! 0))\<^sup>2 +
                           (uint (d ! (4 * k + 1)) - uint (d ! 1))\<^sup>2 +
                           (uint (d ! (4 * k + 2)) - uint (d ! 2))\<^sup>2)) < 60) \<and>
     (grid ! k = transparent \<longleftrightarrow>
        uint (d ! (4 * k + 3)) < 50 \<or>
        (uint (d ! (4 * k)) - uint (d ! 0))\<^sup>2 +
        (uint (d ! (4 * k + 1)) - uint (d ! 1))\<^sup>2 +
        (uint (d ! (4 * k + 2)) - uint (d ! 2))\<^sup>2 < 3600) \<and>
     (grid ! k \<noteq> transparent \<longrightarrow>
        grid ! k =
          [CHR ''#'',
           ''0123456789abcdef'' ! (unat (d ! (4 * k)) div 16),
           ''0123456789abcdef'' ! (unat (d ! (4 * k)) mod 16),
           ''0123456789abcdef'' ! (unat (d ! (4 * k + 1)) div 16),
           ''0123456789abcdef'' ! (unat (d ! (4 * k + 1)) mod 16),
           ''0123456789abcdef'' ! (unat (d ! (4 * k + 2)) div 16),
           ''0123456789abcdef'' ! (unat (d ! (4 * k + 2)) mod 16)])"
proof -
  define m where "m = nat (PixelSize_value sz * PixelSize_value sz)"
  have m: "length d = 4 * m" "k < m"
    using assms by (simp_all add: m_def nat_less_iff)
  have "3 \<le> length d" using m by simp
  then have bg: "background d = (d ! 0, d ! 1, d ! 2)" by (rule background_nth)
  have len: "int (length (hexGrid_of d)) = PixelSize_value sz * PixelSize_value sz"
    using hexGridLoop_length[OF m(1)] assms(2) by (simp add: hexGrid_of_def m_def)
  have nth: "hexGrid_of d ! k =
      classify (d ! 0, d ! 1, d ! 2) (d ! (4 * k)) (d ! (4 * k + 1)) (d ! (4 * k + 2)) (Some (d ! (4 * k + 3)))"
    using hexGridLoop_nth[OF m] by (simp add: hexGrid_of_def bg)
  have euclid: "hexGrid_of d ! k = transparent \<longleftrightarrow>
      uint (d ! (4 * k + 3)) < 50 \<or>
      sqrt (real_of_int ((uint (d ! (4 * k)) - uint (d ! 0))\<^sup>2 +
                         (uint (d ! (4 * k + 1)) - uint (d ! 1))\<^sup>2 +
                         (uint (d ! (4 * k + 2)) - uint (d ! 2))\<^sup>2)) < 60"
    unfolding nth classify_transparent_iff by (simp add: isBg_def dist_rgb_def threshold_def)
  have squares: "hexGrid_of d ! k = transparent \<longleftrightarrow>
      uint (d ! (4 * k + 3)) < 50 \<or>
      (uint (d ! (4 * k)) - uint (d ! 0))\<^sup>2 +
      (uint (d ! (4 * k + 1)) - uint (d ! 1))\<^sup>2 +
      (uint (d ! (4 * k + 2)) - uint (d ! 2))\<^sup>2 < 3600"
    unfolding nth classify_transparent_iff by (simp add: isBg_iff)
  have hex: "hexGrid_of d ! k \<noteq> transparent \<longrightarrow>
      hexGrid_of d ! k =
        [CHR ''#'',
         ''0123456789abcdef'' ! (unat (d ! (4 * k)) div 16),
         ''0123456789abcdef'' ! (unat (d ! (4 * k)) mod 16),
         ''0123456789abcdef'' ! (unat (d ! (4 * k + 1)) div 16),
         ''0123456789abcdef'' ! (unat (d ! (4 * k + 1)) mod 16),
         ''0123456789abcdef'' ! (unat (d ! (4 * k + 2)) div 16),
         ''0123456789abcdef'' ! (unat (d ! (4 * k + 2)) mod 16)]"
    unfolding nth by (simp add: classify_def rgbToHex_digits hexDigit_def)
  show ?thesis
  proof (intro exI[of _ "hexGrid_of d"] conjI)
    show "processImageToGrid (ImageData d) = Inr (hexGrid_of d)"
      by (simp add: processImageToGrid_def)
  qed (fact len, fact euclid, fact squares, fact hex)
qed

theorem quantizer_classification_witness:
  "int (length ([0, 0, 0, 255, 255, 0, 0, 255, 59, 0, 0, 255] @ replicate 4084 (0 :: byte))) =
     4 * (PixelSize_value XS * PixelSize_value XS) \<and>
   processImageToGrid (ImageData ([0, 0, 0, 255, 255, 0, 0, 255, 59, 0, 0, 255] @ replicate 4084 0)) =
     Inr (hexGrid_of ([0, 0, 0, 255, 255, 0, 0, 255, 59, 0, 0, 255] @ replicate 4084 0)) \<and>
   hexGrid_of ([0, 0, 0, 255, 255, 0, 0, 255, 59, 0, 0, 255] @ replicate 4084 0) ! 1 = ''#ff0000'' \<and>
   hexGrid_of ([0, 0, 0, 255, 255, 0, 0, 255, 59, 0, 0, 255] @ replicate 4084 0) ! 2 = transparent"
proof -
  let ?d = "[0, 0, 0, 255, 255, 0, 0, 255, 59, 0, 0, 255] @ replicate 4084 (0 :: byte)"
  have len: "int (length ?d) = 4 * (PixelSize_value XS * PixelSize_value XS)"
    and k1: "int 1 < PixelSize_value XS * PixelSize_value XS"
    and k2: "int 2 < PixelSize_value XS * PixelSize_value XS"
    by simp_all
  have res: "processImageToGrid (ImageData ?d) = Inr (hexGrid_of ?d)"
    by (simp add: processImageToGrid_def)
  from quantizer_classification[OF len k1]
  have c1: "hexGrid_of ?d ! 1 = ''#ff0000''"
    unfolding res by simp
  from quantizer_classification[OF len k2]
  have c2: "hexGrid_of ?d ! 2 = transparent"
    unfolding res by simp
  from len res c1 c2 show ?thesis by blast
qed

text \<open>
  Claim C9. Whenever the promise resolves with a grid, on the \<open>4 * size * size\<close> bytes of
  the canvas, cell 0 of the grid is \<^verbatim>\<open>'transparent'\<close>: pixel 0 is at distance 0 from itself.
\<close>

theorem quantizer_corner_transparent:
  assumes "processImageToGrid env = Inr grid"
    and "env = ImageData d"
    and "int (length d) = 4 * (PixelSize_value sz * PixelSize_value sz)"
  shows "grid ! 0 = transparent"
proof -
  have pos: "0 < PixelSize_value sz * PixelSize_value sz" by (cases sz) simp_all
  define m where "m = nat (PixelSize_value sz * PixelSize_value sz)"
  have m: "length d = 4 * m" "0 < m"
    using assms(3) pos by (simp_all add: m_def)
  have "3 \<le> length d" using m by simp
  then have bg: "background d = (d ! 0, d ! 1, d ! 2)" by (rule background_nth)
  have "hexGrid_of d ! 0 = classify (d ! 0, d ! 1, d ! 2) (d ! 0) (d ! 1) (d ! 2) (Some (d ! 3))"
    using hexGridLoop_nth[OF m, of "background d"]
    by (simp add: hexGrid_of_def bg numeral_2_eq_2 numeral_3_eq_3)
  then have "hexGrid_of d ! 0 = transparent"
    by (simp add: classify_transparent_iff isBg_self)
  with assms(1,2) show ?thesis by (simp add: processImageToGrid_def)
qed

theorem quantizer_corner_transparent_witness:
  "processImageToGrid (ImageData ([17, 34, 51, 255] @ replicate 4092 200)) =
     Inr (hexGrid_of ([17, 34, 51, 255] @ replicate 4092 200)) \<and>
   int (length ([17, 34, 51, 255] @ replicate 4092 (200 :: byte))) =
     4 * (PixelSize_value XS * PixelSize_value XS) \<and>
   hexGrid_of ([17, 34, 51, 255] @ replicate 4092 200) ! 0 = transparent"
proof -
  let ?d = "[17, 34, 51, 255] @ replicate 4092 (200 :: byte)"
  have res: "processImageToGrid (ImageData ?d) = Inr (hexGrid_of ?d)"
    by (simp add: processImageToGrid_def)
  have len: "int (length ?d) = 4 * (PixelSize_value XS * PixelSize_value XS)"
    by simp
  from quantizer_corner_transparent[OF res refl len] res len show ?thesis by simp
qed

section \<open>Properties of the viewport scale\<close>

text \<open>
  Claim C7. With a container of width \<open>w\<close> and height \<open>h\<close>, the scale set by the effect is
  \<open>max 1 \<lfloor>(min w h - 64) / size\<rfloor>\<close>; for a 500 by 500 container and resolution 64 it is
  6; it is an integer that is at least 1.
\<close>

theorem viewport_scale:
  "autoFit (Some (w, h)) sz scale = max 1 \<lfloor>(min w h - 64) / real_of_int (PixelSize_value sz)\<rfloor> \<and>
   autoFit (Some (500, 500)) S scale = 6 \<and>
   1 \<le> autoFit (Some (w, h)) sz scale"
  by (simp add: autoFit_def)

section \<open>Properties of the tool state\<close>

text \<open>
  Claim C8 fails as stated: the arrival of a grid does not set the brush size to 1. A brush
  size of 5 is still 5 afterwards.
\<close>

theorem tool_defaults_counterexample:
  "brushSize (gridEffect (Some [transparent, ''#ff0000''])
      \<lparr> activeTool = eraser, brushSize = 5, drawColor = ''#ffffff'' \<rparr>) \<noteq> 1"
  by (simp add: gridEffect_def)

lemma find_first:
  "\<forall>c' \<in> set pre. \<not> P c' \<Longrightarrow> P c \<Longrightarrow> find P (pre @ c # rest) = Some c"
  by (induction pre) auto

lemma find_none_iff: "find P xs = None \<longleftrightarrow> (\<forall>x \<in> set xs. \<not> P x)"
  by (induction xs) auto

text \<open>
  Claim C8, as amended. When a grid arrives the active tool becomes the pencil and the brush
  size is left as it is; its value in the initial tool state is 1. The draw colour becomes the
  first non-transparent colour of the grid when that colour is not the empty string, and is
  left as it is when that colour is the empty string and when every cell of the grid is
  transparent.
\<close>

theorem tool_defaults:
  "activeTool (gridEffect (Some g) ts) = pencil \<and>
   brushSize (gridEffect (Some g) ts) = brushSize ts \<and>
   brushSize initialToolState = 1 \<and>
   ((\<forall>c' \<in> set pre. c' = transparent) \<and> c \<noteq> transparent \<and> c \<noteq> [] \<longrightarrow>
      drawColor (gridEffect (Some (pre @ c # rest)) ts) = c) \<and>
   ((\<forall>c' \<in> set pre. c' = transparent) \<longrightarrow>
      drawColor (gridEffect (Some (pre @ [] # rest)) ts) = drawColor ts) \<and>
   ((\<forall>c' \<in> set g. c' = transparent) \<longrightarrow> drawColor (gridEffect (Some g) ts) = drawColor ts)"
proof -
  have first: "find (\<lambda>c. c \<noteq> transparent) (pre @ c # rest) = Some c"
    if "\<forall>c' \<in> set pre. c' = transparent" "c \<noteq> transparent" for c
    using that by (intro find_first) auto
  have "find (\<lambda>c. c \<noteq> transparent) g = None" if "\<forall>c' \<in> set g. c' = transparent"
    using that by (simp add: find_none_iff)
  with first first[of "[]"] show ?thesis
    by (auto simp: gridEffect_def Let_def initialToolState_def split: option.splits)
qed

theorem tool_defaults_witness:
  "''#ff0000'' \<noteq> transparent \<and> ''#ff0000'' \<noteq> [] \<and>
   gridEffect (Some ([transparent] @ ''#ff0000'' # [''#00ff00'']))
      \<lparr> activeTool = eraser, brushSize = 5, drawColor = ''#ffffff'' \<rparr>
    = \<lparr> activeTool = pencil, brushSize = 5, drawColor = ''#ff0000'' \<rparr> \<and>
   drawColor (gridEffect (Some [transparent, transparent])
      \<lparr> activeTool = eraser, brushSize = 5, drawColor = ''#ffffff'' \<rparr>) = ''#ffffff'' \<and>
   drawColor (gridEffect (Some ([transparent] @ [] # [''#00ff00'']))
      \<lparr> activeTool = eraser, brushSize = 5, drawColor = ''#ffffff'' \<rparr>) = ''#ffffff''"
  using tool_defaults[of "[transparent, transparent]" "\<lparr> activeTool = eraser, brushSize = 5, drawColor = ''#ffffff'' \<rparr>" "[transparent]" "''#ff0000''" "[''#00ff00'']"]
    tool_defaults[of "[transparent] @ ''#ff0000'' # [''#00ff00'']" "\<lparr> activeTool = eraser, brushSize = 5, drawColor = ''#ffffff'' \<rparr>" "[transparent]" "''#ff0000''" "[''#00ff00'']"]
  by (simp add: ToolState.equality)

section \<open>Properties of \<^verbatim>\<open>applyTool\<close>\<close>

subsection \<open>The store outside the new array\<close>

lemma store_set_frame:
  "length (store_set s a i v) = length s \<and> (\<forall>r. r \<noteq> a \<longrightarrow> store_set s a i v ! r = s ! r)"
  by (simp add: store_set_def)

lemma magicLoop_frame:
  "length (magicLoop s a t i) = length s \<and> (\<forall>r. r \<noteq> a \<longrightarrow> magicLoop s a t i ! r = s ! r)"
proof (induction s a t i rule: magicLoop.induct)
  case (1 s a t i)
  show ?case
  proof (cases "i < length (s ! a)")
    case True
    with 1 show ?thesis
      by (subst (1 2) magicLoop.simps) (simp add: store_set_frame)
  next
    case False
    then show ?thesis by (subst (1 2) magicLoop.simps) simp
  qed
qed

lemma brushCell_frame:
  "length (fst (brushCell st a n ts py px)) = length (fst st) \<and>
   (\<forall>r. r \<noteq> a \<longrightarrow> fst (brushCell st a n ts py px) ! r = fst st ! r)"
  by (cases st) (simp add: brushCell_def Let_def store_set_frame)

lemma brushLoopX_frame:
  "length (fst (brushLoopX st a n ts py px endX)) = length (fst st) \<and>
   (\<forall>r. r \<noteq> a \<longrightarrow> fst (brushLoopX st a n ts py px endX) ! r = fst st ! r)"
proof (induction st a n ts py px endX rule: brushLoopX.induct)
  case (1 st a n ts py px endX)
  show ?case
  proof (cases "px < endX")
    case True
    with 1 show ?thesis
      by (subst (1 2) brushLoopX.simps) (simp add: brushCell_frame)
  next
    case False
    then show ?thesis by (subst (1 2) brushLoopX.simps) simp
  qed
qed

lemma brushLoopY_frame:
  "length (fst (brushLoopY st a n ts startX endX py endY)) = length (fst st) \<and>
   (\<forall>r. r \<noteq> a \<longrightarrow> fst (brushLoopY st a n ts startX endX py endY) ! r = fst st ! r)"
proof (induction st a n ts startX endX py endY rule: brushLoopY.induct)
  case (1 st a n ts startX endX py endY)
  show ?case
  proof (cases "py < endY")
    case True
    with 1 show ?thesis
      by (subst (1 2) brushLoopY.simps) (simp add: brushLoopX_frame)
  next
    case False
    then show ?thesis by (subst (1 2) brushLoopY.simps) simp
  qed
qed

lemma take_frame:
  assumes "length s1 = Suc (length s)" and "\<forall>r. r \<noteq> length s \<longrightarrow> s1 ! r = (s @ [A]) ! r"
  shows "take (length s) s1 = s"
proof (rule nth_equalityI)
  show "length (take (length s) s1) = length s" using assms(1) by simp
next
  fix i
  assume "i < length (take (length s) s1)"
  then have i: "i < length s" by simp
  with assms(2) show "take (length s) s1 ! i = s ! i" by (simp add: nth_append)
qed

lemma applyTool_frame: "take (length s) (fst (applyTool s grid sz ts x y)) = s"
proof (cases grid)
  case None
  then show ?thesis by (simp add: applyTool_def)
next
  case (Some g)
  let ?n = "PixelSize_value sz"
  show ?thesis
  proof (cases "x < 0 \<or> x \<ge> ?n \<or> y < 0 \<or> y \<ge> ?n")
    case True
    with Some show ?thesis by (simp add: applyTool_def Let_def)
  next
    case False
    let ?s0 = "s @ [s ! g]"
    show ?thesis
    proof (cases "activeTool ts = magic_eraser")
      case True
      have "take (length s) (magicLoop ?s0 (length s) t 0) = s" for t
        by (rule take_frame[where A = "s ! g"]) (simp_all add: magicLoop_frame)
      with Some False True show ?thesis
        by (simp add: applyTool_def Let_def)
    next
      case tool: False
      have "take (length s) (fst (brushLoopY (?s0, False) (length s) ?n ts X0 X1 Y0 Y1)) = s"
        for X0 X1 Y0 Y1
        by (rule take_frame[where A = "s ! g"]) (simp_all add: brushLoopY_frame)
      with Some False tool show ?thesis
        by (simp add: applyTool_def Let_def split: prod.splits)
          (metis fst_conv)
    qed
  qed
qed

subsection \<open>The magic eraser\<close>

lemma magicLoop_eq:
  "a < length s \<Longrightarrow> i \<le> length (s ! a) \<Longrightarrow>
   magicLoop s a t i =
     s[a := take i (s ! a) @ map (\<lambda>c. if c = t then Some transparent else c) (drop i (s ! a))]"
proof (induction "length (s ! a) - i" arbitrary: s i)
  case 0
  then have "i = length (s ! a)" by simp
  then show ?case by (subst magicLoop.simps) simp
next
  case (Suc k)
  let ?A = "s ! a"
  let ?f = "\<lambda>c. if c = t then Some transparent else c"
  let ?A' = "if ?A ! i = t then ?A[i := Some transparent] else ?A"
  let ?s' = "if arr_get ?A i = t then store_set s a i transparent else s"
  from Suc have i: "i < length ?A" by simp
  have s': "?s' = s[a := ?A']"
    using i by (simp add: arr_get_def store_set_def arr_set_def)
  have A': "?s' ! a = ?A'" using Suc.prems(1) by (simp add: s')
  have len: "length ?A' = length ?A" by simp
  have "magicLoop s a t i = magicLoop ?s' a t (i + 1)"
    using i by (subst magicLoop.simps) simp
  also have "\<dots> = ?s'[a := take (i + 1) (?s' ! a) @ map ?f (drop (i + 1) (?s' ! a))]"
  proof (rule Suc.hyps(1))
    show "k = length (?s' ! a) - (i + 1)" using Suc.hyps(2) unfolding A' len by simp
    show "a < length ?s'" using Suc.prems(1) by (simp add: s')
    show "i + 1 \<le> length (?s' ! a)" using i unfolding A' len by simp
  qed
  also have "\<dots> = s[a := take (i + 1) ?A' @ map ?f (drop (i + 1) ?A')]"
    unfolding A' by (simp add: s')
  also have "take (i + 1) ?A' @ map ?f (drop (i + 1) ?A') = take i ?A @ map ?f (drop i ?A)"
  proof -
    have "take (i + 1) ?A' = take i ?A @ [?f (?A ! i)]"
      using i by (simp add: take_Suc_conv_app_nth)
    moreover have "drop (i + 1) ?A' = drop (i + 1) ?A" by simp
    moreover have "drop i ?A = ?A ! i # drop (i + 1) ?A"
      using i by (simp add: Cons_nth_drop_Suc)
    ultimately show ?thesis by simp
  qed
  finally show ?case .
qed

lemma applyTool_magic:
  assumes "activeTool ts = magic_eraser"
    and "g < length s" and "s ! g = map Some cs"
    and "0 \<le> x" "x < PixelSize_value sz" "0 \<le> y" "y < PixelSize_value sz"
    and "nat (y * PixelSize_value sz + x) < length cs"
  shows "applyTool s (Some g) sz ts x y =
     (if cs ! nat (y * PixelSize_value sz + x) \<noteq> transparent
      then (s @ [map Some (map (\<lambda>c. if c = cs ! nat (y * PixelSize_value sz + x) then transparent else c) cs)],
            Some (length s))
      else (s @ [map Some cs], None))"
proof -
  let ?n = "PixelSize_value sz"
  let ?index = "nat (y * ?n + x)"
  let ?s0 = "s @ [s ! g]"
  have target: "arr_get (?s0 ! g) ?index = Some (cs ! ?index)"
    using assms by (simp add: arr_get_def nth_append)
  have loop: "magicLoop ?s0 (length s) (Some (cs ! ?index)) 0 =
      s @ [map Some (map (\<lambda>c. if c = cs ! ?index then transparent else c) cs)]"
    using magicLoop_eq[of "length s" ?s0 0 "Some (cs ! ?index)"] assms(3)
    by (simp add: comp_def if_distrib[of Some] cong: if_cong)
  show ?thesis
    using assms(1,3-7) target loop by (simp add: applyTool_def Let_def)
qed

subsection \<open>The brush\<close>

lemma cell_index_less:
  assumes "0 \<le> cx" "cx < n" "0 \<le> cy" "cy < (n::int)"
  shows "cy * n + cx < n * n"
proof -
  have "cy * n \<le> (n - 1) * n"
    using assms by (intro mult_right_mono) simp_all
  then have "cy * n + cx < (n - 1) * n + n" using assms(2) by simp
  then show ?thesis by (simp add: algebra_simps)
qed

lemma cell_index_inj:
  assumes "0 \<le> cx" "cx < n" "0 \<le> cx'" "cx' < (n::int)"
    and "cy * n + cx = cy' * n + cx'"
  shows "cx = cx' \<and> cy = cy'"
proof -
  have "(cy * n + cx) mod n = cx" "(cy' * n + cx') mod n = cx'"
    using assms(1-4) by simp_all
  with assms(5) have cx: "cx = cx'" by simp
  from assms(2,1) have "n \<noteq> 0" by auto
  with assms(5) cx show ?thesis by simp
qed

lemma cellsOf_mem:
  assumes "0 \<le> cx" "cx < n" "0 \<le> cy" "cy < n"
  shows "nat (cy * n + cx) \<in> cellsOf n X0 X1 Y0 Y1 \<longleftrightarrow> X0 \<le> cx \<and> cx < X1 \<and> Y0 \<le> cy \<and> cy < Y1"
proof
  assume "nat (cy * n + cx) \<in> cellsOf n X0 X1 Y0 Y1"
  then obtain cx' cy' where eq: "nat (cy * n + cx) = nat (cy' * n + cx')"
    and in': "X0 \<le> cx'" "cx' < X1" "Y0 \<le> cy'" "cy' < Y1" "0 \<le> cx'" "cx' < n" "0 \<le> cy'" "cy' < n"
    by (auto simp: cellsOf_def)
  have "0 \<le> cy * n + cx" "0 \<le> cy' * n + cx'" using assms in' by simp_all
  with eq have "cy * n + cx = cy' * n + cx'" by simp
  from cell_index_inj[OF assms(1,2) in'(5,6) this] in' show "X0 \<le> cx \<and> cx < X1 \<and> Y0 \<le> cy \<and> cy < Y1"
    by simp
next
  assume "X0 \<le> cx \<and> cx < X1 \<and> Y0 \<le> cy \<and> cy < Y1"
  with assms show "nat (cy * n + cx) \<in> cellsOf n X0 X1 Y0 Y1"
    by (auto simp: cellsOf_def)
qed

lemma cellsOf_single:
  "cellsOf n px (px + 1) py (py + 1) =
     (if 0 \<le> px \<and> px < n \<and> 0 \<le> py \<and> py < n then {nat (py * n + px)} else {})"
proof -
  have "cx = px" if "px \<le> cx" "cx < px + 1" for cx :: int using that by simp
  then show ?thesis by (auto simp: cellsOf_def)
qed

lemma cellsOf_empty_X: "\<not> px < endX \<Longrightarrow> cellsOf n px endX Y0 Y1 = {}"
  by (auto simp: cellsOf_def)

lemma cellsOf_empty_Y: "\<not> py < endY \<Longrightarrow> cellsOf n X0 X1 py endY = {}"
  by (auto simp: cellsOf_def)

lemma cellsOf_step_X:
  "px < endX \<Longrightarrow>
   cellsOf n px endX Y0 Y1 = cellsOf n px (px + 1) Y0 Y1 \<union> cellsOf n (px + 1) endX Y0 Y1"
proof -
  assume less: "px < endX"
  have "(px \<le> cx \<and> cx < endX) \<longleftrightarrow> (px \<le> cx \<and> cx < px + 1) \<or> (px + 1 \<le> cx \<and> cx < endX)" for cx
    using less by auto
  then show ?thesis unfolding cellsOf_def by blast
qed

lemma cellsOf_step_Y:
  "py < endY \<Longrightarrow>
   cellsOf n X0 X1 py endY = cellsOf n X0 X1 py (py + 1) \<union> cellsOf n X0 X1 (py + 1) endY"
proof -
  assume less: "py < endY"
  have "(py \<le> cy \<and> cy < endY) \<longleftrightarrow> (py \<le> cy \<and> cy < py + 1) \<or> (py + 1 \<le> cy \<and> cy < endY)" for cy
    using less by auto
  then show ?thesis unfolding cellsOf_def by blast
qed

lemma paintCells_empty: "paintCells c {} A = A"
  by (simp add: paintCells_def map_nth)

lemma length_paintCells: "length (paintCells c C A) = length A"
  by (simp add: paintCells_def)

lemma nth_paintCells:
  "i < length A \<Longrightarrow> paintCells c C A ! i = (if i \<in> C then Some c else A ! i)"
  by (simp add: paintCells_def)

lemma paintCells_insert:
  "i < length A \<Longrightarrow> (paintCells c C A)[i := Some c] = paintCells c (insert i C) A"
  by (rule nth_equalityI) (auto simp: length_paintCells nth_paintCells nth_list_update)

lemma paintCells_absorb:
  "i < length A \<Longrightarrow> i \<in> C \<or> A ! i = Some c \<Longrightarrow> paintCells c (insert i C) A = paintCells c C A"
  by (rule nth_equalityI) (auto simp: length_paintCells nth_paintCells)

lemma brushCell_painted:
  assumes "a < length s" and "n * n \<le> int (length A)"
  shows "brushCell (painted s a A (newColor ts) C) a n ts py px =
     painted s a A (newColor ts) (C \<union> cellsOf n px (px + 1) py (py + 1))"
proof (cases "0 \<le> px \<and> px < n \<and> 0 \<le> py \<and> py < n")
  case False
  then show ?thesis
    by (auto simp: brushCell_def painted_def cellsOf_single)
next
  case True
  let ?c = "newColor ts"
  let ?idx = "nat (py * n + px)"
  have "py * n + px < n * n"
    using True by (intro cell_index_less) simp_all
  moreover have "0 \<le> py * n + px"
    using True by simp
  ultimately have idx: "?idx < length A"
    using assms(2) by linarith
  have cells: "C \<union> cellsOf n px (px + 1) py (py + 1) = insert ?idx C"
    using True by (simp add: cellsOf_single)
  have get: "arr_get (s[a := paintCells ?c C A] ! a) ?idx = (if ?idx \<in> C then Some ?c else A ! ?idx)"
    using assms(1) idx by (simp add: arr_get_def length_paintCells nth_paintCells)
  show ?thesis
  proof (cases "?idx \<in> C \<or> A ! ?idx = Some ?c")
    case same: True
    then have "arr_get (s[a := paintCells ?c C A] ! a) ?idx = Some ?c"
      unfolding get by auto
    moreover have "paintCells ?c (insert ?idx C) A = paintCells ?c C A"
      using idx same by (rule paintCells_absorb)
    moreover have "(\<exists>i\<in>insert ?idx C. i < length A \<and> A ! i \<noteq> Some ?c) \<longleftrightarrow>
        (\<exists>i\<in>C. i < length A \<and> A ! i \<noteq> Some ?c)"
      using same by auto
    ultimately show ?thesis
      using True unfolding cells by (simp add: brushCell_def painted_def)
  next
    case differ: False
    then have "arr_get (s[a := paintCells ?c C A] ! a) ?idx \<noteq> Some ?c"
      unfolding get by auto
    moreover have "store_set (s[a := paintCells ?c C A]) a ?idx ?c =
        s[a := paintCells ?c (insert ?idx C) A]"
      using assms(1) idx
      by (simp add: store_set_def arr_set_def length_paintCells paintCells_insert)
    moreover have "\<exists>i\<in>insert ?idx C. i < length A \<and> A ! i \<noteq> Some ?c"
      using differ idx by auto
    ultimately show ?thesis
      using True unfolding cells by (simp add: brushCell_def painted_def)
  qed
qed

lemma brushLoopX_painted:
  assumes "a < length s" and "n * n \<le> int (length A)"
  shows "brushLoopX (painted s a A (newColor ts) C) a n ts py px endX =
     painted s a A (newColor ts) (C \<union> cellsOf n px endX py (py + 1))"
proof (induction "nat (endX - px)" arbitrary: px C)
  case 0
  then have "\<not> px < endX" by simp
  then show ?case
    by (subst brushLoopX.simps) (simp add: cellsOf_empty_X)
next
  case (Suc k)
  then have less: "px < endX" by simp
  have "brushLoopX (painted s a A (newColor ts) C) a n ts py px endX =
      brushLoopX (painted s a A (newColor ts) (C \<union> cellsOf n px (px + 1) py (py + 1))) a n ts py (px + 1) endX"
    using less by (subst brushLoopX.simps) (simp add: brushCell_painted[OF assms])
  also have "\<dots> = painted s a A (newColor ts)
      ((C \<union> cellsOf n px (px + 1) py (py + 1)) \<union> cellsOf n (px + 1) endX py (py + 1))"
    using Suc.hyps(2) by (intro Suc.hyps(1)) simp
  finally show ?case
    by (simp add: cellsOf_step_X[OF less] Un_assoc)
qed

lemma brushLoopY_painted:
  assumes "a < length s" and "n * n \<le> int (length A)"
  shows "brushLoopY (painted s a A (newColor ts) C) a n ts startX endX py endY =
     painted s a A (newColor ts) (C \<union> cellsOf n startX endX py endY)"
proof (induction "nat (endY - py)" arbitrary: py C)
  case 0
  then have "\<not> py < endY" by simp
  then show ?case
    by (subst brushLoopY.simps) (simp add: cellsOf_empty_Y)
next
  case (Suc k)
  then have less: "py < endY" by simp
  have "brushLoopY (painted s a A (newColor ts) C) a n ts startX endX py endY =
      brushLoopY (painted s a A (newColor ts) (C \<union> cellsOf n startX endX py (py + 1)))
        a n ts startX endX (py + 1) endY"
    using less by (subst brushLoopY.simps) (simp add: brushLoopX_painted[OF assms])
  also have "\<dots> = painted s a A (newColor ts)
      ((C \<union> cellsOf n startX endX py (py + 1)) \<union> cellsOf n startX endX (py + 1) endY)"
    using Suc.hyps(2) by (intro Suc.hyps(1)) simp
  finally show ?case
    by (simp add: cellsOf_step_Y[OF less] Un_assoc)
qed

lemma applyTool_brush:
  assumes "activeTool ts \<noteq> magic_eraser"
    and "PixelSize_value sz * PixelSize_value sz \<le> int (length (s ! g))"
    and "0 \<le> x" "x < PixelSize_value sz" "0 \<le> y" "y < PixelSize_value sz"
  shows "applyTool s (Some g) sz ts x y =
     (s @ [paintCells (newColor ts)
             (cellsOf (PixelSize_value sz)
                (x - brushSize ts div 2) (x - brushSize ts div 2 + brushSize ts)
                (y - brushSize ts div 2) (y - brushSize ts div 2 + brushSize ts))
             (s ! g)],
      if \<exists>i \<in> cellsOf (PixelSize_value sz)
                (x - brushSize ts div 2) (x - brushSize ts div 2 + brushSize ts)
                (y - brushSize ts div 2) (y - brushSize ts div 2 + brushSize ts).
            i < length (s ! g) \<and> s ! g ! i \<noteq> Some (newColor ts)
      then Some (length s) else None)"
proof -
  let ?n = "PixelSize_value sz"
  let ?A = "s ! g"
  let ?s0 = "s @ [?A]"
  let ?R = "cellsOf ?n (x - brushSize ts div 2) (x - brushSize ts div 2 + brushSize ts)
      (y - brushSize ts div 2) (y - brushSize ts div 2 + brushSize ts)"
  have start: "(?s0, False) = painted ?s0 (length s) ?A (newColor ts) {}"
    by (simp add: painted_def paintCells_empty)
  have "brushLoopY (?s0, False) (length s) ?n ts
      (x - brushSize ts div 2) (x - brushSize ts div 2 + brushSize ts)
      (y - brushSize ts div 2) (y - brushSize ts div 2 + brushSize ts) =
      painted ?s0 (length s) ?A (newColor ts) ({} \<union> ?R)"
    unfolding start by (rule brushLoopY_painted) (simp_all add: assms(2))
  then show ?thesis
    using assms(1,3-6) by (simp add: applyTool_def Let_def painted_def)
qed

lemma paintCells_dense:
  "paintCells c C (map Some cs) = map Some (map (\<lambda>i. if i \<in> C then c else cs ! i) [0..<length cs])"
  by (rule nth_equalityI) (simp_all add: length_paintCells nth_paintCells)

lemma painted_changed_iff:
  "(\<exists>i\<in>C. i < length (map Some cs) \<and> map Some cs ! i \<noteq> Some c) \<longleftrightarrow>
   map (\<lambda>i. if i \<in> C then c else cs ! i) [0..<length cs] \<noteq> cs"
proof
  let ?new = "map (\<lambda>i. if i \<in> C then c else cs ! i) [0..<length cs]"
  assume "\<exists>i\<in>C. i < length (map Some cs) \<and> map Some cs ! i \<noteq> Some c"
  then obtain i where i: "i \<in> C" "i < length cs" "cs ! i \<noteq> c"
    by auto
  then have "?new ! i \<noteq> cs ! i" by simp
  moreover have "?new ! i = cs ! i" if "?new = cs"
    using that by (rule arg_cong[where f = "\<lambda>xs. xs ! i"])
  ultimately show "?new \<noteq> cs" by blast
next
  let ?new = "map (\<lambda>i. if i \<in> C then c else cs ! i) [0..<length cs]"
  assume differ: "?new \<noteq> cs"
  have "?new = cs" if "\<forall>i<length cs. ?new ! i = cs ! i"
    using that by (intro nth_equalityI) simp_all
  with differ obtain i where i: "i < length cs" "?new ! i \<noteq> cs ! i"
    by blast
  then have "i \<in> C \<and> i < length (map Some cs) \<and> map Some cs ! i \<noteq> Some c"
    by (simp split: if_splits)
  then show "\<exists>i\<in>C. i < length (map Some cs) \<and> map Some cs ! i \<noteq> Some c" by blast
qed

lemma applyTool_brush_dense:
  assumes "activeTool ts \<noteq> magic_eraser"
    and "s ! g = map Some cs"
    and "int (length cs) = PixelSize_value sz * PixelSize_value sz"
    and "0 \<le> x" "x < PixelSize_value sz" "0 \<le> y" "y < PixelSize_value sz"
    and "new = map (\<lambda>i. if i \<in> cellsOf (PixelSize_value sz)
                (x - brushSize ts div 2) (x - brushSize ts div 2 + brushSize ts)
                (y - brushSize ts div 2) (y - brushSize ts div 2 + brushSize ts)
              then newColor ts else cs ! i) [0..<length cs]"
  shows "applyTool s (Some g) sz ts x y =
     (s @ [map Some new], if new \<noteq> cs then Some (length s) else None)"
proof -
  have "PixelSize_value sz * PixelSize_value sz \<le> int (length (s ! g))"
    using assms(2,3) by simp
  from applyTool_brush[OF assms(1) this assms(4-7)] show ?thesis
    unfolding assms(2) paintCells_dense painted_changed_iff assms(8) .
qed

lemma brush_cell_value:
  assumes "int (length cs) = n * n"
    and "0 \<le> cx" "cx < n" "0 \<le> cy" "cy < n"
  shows "map (\<lambda>i. if i \<in> cellsOf n X0 X1 Y0 Y1 then c else cs ! i) [0..<length cs] ! nat (cy * n + cx) =
     (if X0 \<le> cx \<and> cx < X1 \<and> Y0 \<le> cy \<and> cy < Y1 then c else cs ! nat (cy * n + cx))"
proof -
  have "cy * n + cx < n * n" using assms(2-5) by (intro cell_index_less)
  moreover have "0 \<le> cy * n + cx" using assms(2-5) by simp
  ultimately have "nat (cy * n + cx) < length cs" using assms(1) by linarith
  then show ?thesis by (simp add: cellsOf_mem[OF assms(2-5)])
qed

text \<open>
  Claim C3. Let the grid be an array of \<open>size * size\<close> strings and \<open>(x, y)\<close> a cell inside it,
  of colour \<open>C\<close>, with the magic eraser active. If \<open>C\<close> is not \<^verbatim>\<open>'transparent'\<close>, one call of
  \<^verbatim>\<open>onGridUpdate\<close> delivers a new array in which every cell that held \<open>C\<close> holds
  \<^verbatim>\<open>'transparent'\<close> and every other cell holds what it held. If \<open>C\<close> is
  \<^verbatim>\<open>'transparent'\<close>, nothing is delivered. The arrays of the store before the call, the
  caller's grid among them, are as they were.
\<close>

theorem magicEraser_replaces_colour:
  assumes "activeTool ts = magic_eraser"
    and "g < length s" and "s ! g = map Some cs"
    and "int (length cs) = PixelSize_value sz * PixelSize_value sz"
    and "0 \<le> x" "x < PixelSize_value sz" "0 \<le> y" "y < PixelSize_value sz"
  shows "(cs ! nat (y * PixelSize_value sz + x) \<noteq> transparent \<longrightarrow>
       applyTool s (Some g) sz ts x y =
         (s @ [map Some (map (\<lambda>c. if c = cs ! nat (y * PixelSize_value sz + x) then transparent else c) cs)],
          Some (length s))) \<and>
     (cs ! nat (y * PixelSize_value sz + x) = transparent \<longrightarrow>
       applyTool s (Some g) sz ts x y = (s @ [map Some cs], None))"
proof -
  have "y * PixelSize_value sz + x < PixelSize_value sz * PixelSize_value sz"
    using assms(5-8) by (intro cell_index_less)
  moreover have "0 \<le> y * PixelSize_value sz + x"
    using assms(5-8) by simp
  ultimately have "nat (y * PixelSize_value sz + x) < length cs"
    using assms(4) by linarith
  from applyTool_magic[OF assms(1-3) assms(5-8) this] show ?thesis by simp
qed

theorem magicEraser_replaces_colour_witness:
  "applyTool [map Some (''#ff0000'' # ''#00ff00'' # ''#ff0000'' # replicate 1021 transparent)] (Some 0) XS
      \<lparr> activeTool = magic_eraser, brushSize = 3, drawColor = ''#ffffff'' \<rparr> 2 0 =
     ([map Some (''#ff0000'' # ''#00ff00'' # ''#ff0000'' # replicate 1021 transparent),
       map Some (transparent # ''#00ff00'' # transparent # replicate 1021 transparent)], Some 1) \<and>
   applyTool [map Some (''#ff0000'' # ''#00ff00'' # ''#ff0000'' # replicate 1021 transparent)] (Some 0) XS
      \<lparr> activeTool = magic_eraser, brushSize = 3, drawColor = ''#ffffff'' \<rparr> 3 0 =
     ([map Some (''#ff0000'' # ''#00ff00'' # ''#ff0000'' # replicate 1021 transparent),
       map Some (''#ff0000'' # ''#00ff00'' # ''#ff0000'' # replicate 1021 transparent)], None)"
proof -
  let ?cs = "''#ff0000'' # ''#00ff00'' # ''#ff0000'' # replicate 1021 transparent"
  let ?ts = "\<lparr> activeTool = magic_eraser, brushSize = 3, drawColor = ''#ffffff'' \<rparr>"
  have hyps: "activeTool ?ts = magic_eraser" "0 < length [map Some ?cs]" "[map Some ?cs] ! 0 = map Some ?cs"
    "int (length ?cs) = PixelSize_value XS * PixelSize_value XS"
    by simp_all
  have "(0::int) \<le> 2" "2 < PixelSize_value XS" "(0::int) \<le> 3" "3 < PixelSize_value XS"
    "(0::int) \<le> 0" "0 < PixelSize_value XS"
    by simp_all
  with magicEraser_replaces_colour[OF hyps, of 2 0] magicEraser_replaces_colour[OF hyps, of 3 0]
  show ?thesis by (simp add: numeral_3_eq_3 numeral_2_eq_2)
qed

text \<open>
  Claim C4. Let the grid be an array of \<open>size * size\<close> strings, the tool the pencil or the
  eraser, and \<open>half = brushSize div 2\<close>. A call with \<open>(x, y)\<close> outside the grid changes
  nothing and delivers nothing. A call with \<open>(x, y)\<close> inside builds an array of the same
  length in which a cell \<open>(cx, cy)\<close> of the grid holds the new colour (the draw colour for the
  pencil, \<^verbatim>\<open>'transparent'\<close> for the eraser) when \<open>x - half \<le> cx \<le> x - half + brushSize - 1\<close>
  and \<open>y - half \<le> cy \<le> y - half + brushSize - 1\<close>, and what it held otherwise; the array is
  delivered exactly when it differs from the grid.
\<close>

theorem brush_footprint:
  assumes "activeTool ts = pencil \<or> activeTool ts = eraser"
    and "g < length s" and "s ! g = map Some cs"
    and "int (length cs) = PixelSize_value sz * PixelSize_value sz"
  shows "(x < 0 \<or> PixelSize_value sz \<le> x \<or> y < 0 \<or> PixelSize_value sz \<le> y \<longrightarrow>
       applyTool s (Some g) sz ts x y = (s, None)) \<and>
     (0 \<le> x \<and> x < PixelSize_value sz \<and> 0 \<le> y \<and> y < PixelSize_value sz \<longrightarrow>
       (\<exists>new. applyTool s (Some g) sz ts x y =
            (s @ [map Some new], if new \<noteq> cs then Some (length s) else None) \<and>
          length new = length cs \<and>
          (\<forall>cx cy. 0 \<le> cx \<and> cx < PixelSize_value sz \<and> 0 \<le> cy \<and> cy < PixelSize_value sz \<longrightarrow>
             new ! nat (cy * PixelSize_value sz + cx) =
               (if x - brushSize ts div 2 \<le> cx \<and> cx \<le> x - brushSize ts div 2 + brushSize ts - 1 \<and>
                   y - brushSize ts div 2 \<le> cy \<and> cy \<le> y - brushSize ts div 2 + brushSize ts - 1
                then (if activeTool ts = pencil then drawColor ts else transparent)
                else cs ! nat (cy * PixelSize_value sz + cx)))))"
proof (intro conjI impI)
  assume "x < 0 \<or> PixelSize_value sz \<le> x \<or> y < 0 \<or> PixelSize_value sz \<le> y"
  then show "applyTool s (Some g) sz ts x y = (s, None)"
    by (simp add: applyTool_def Let_def)
next
  let ?n = "PixelSize_value sz"
  let ?X0 = "x - brushSize ts div 2"
  let ?Y0 = "y - brushSize ts div 2"
  assume anchor: "0 \<le> x \<and> x < ?n \<and> 0 \<le> y \<and> y < ?n"
  define new where "new =
    map (\<lambda>i. if i \<in> cellsOf ?n ?X0 (?X0 + brushSize ts) ?Y0 (?Y0 + brushSize ts)
              then newColor ts else cs ! i) [0..<length cs]"
  have tool: "activeTool ts \<noteq> magic_eraser" using assms(1) by auto
  have run: "applyTool s (Some g) sz ts x y =
      (s @ [map Some new], if new \<noteq> cs then Some (length s) else None)"
    using tool assms(3,4) anchor new_def by (intro applyTool_brush_dense) simp_all
  have len: "length new = length cs" by (simp add: new_def)
  have cell: "new ! nat (cy * ?n + cx) =
      (if ?X0 \<le> cx \<and> cx \<le> ?X0 + brushSize ts - 1 \<and> ?Y0 \<le> cy \<and> cy \<le> ?Y0 + brushSize ts - 1
       then (if activeTool ts = pencil then drawColor ts else transparent)
       else cs ! nat (cy * ?n + cx))"
    if b: "0 \<le> cx \<and> cx < ?n \<and> 0 \<le> cy \<and> cy < ?n" for cx cy
  proof -
    have "new ! nat (cy * ?n + cx) =
        (if ?X0 \<le> cx \<and> cx < ?X0 + brushSize ts \<and> ?Y0 \<le> cy \<and> cy < ?Y0 + brushSize ts
         then newColor ts else cs ! nat (cy * ?n + cx))"
      unfolding new_def using assms(4) b by (intro brush_cell_value) simp_all
    moreover have "cx < ?X0 + brushSize ts \<longleftrightarrow> cx \<le> ?X0 + brushSize ts - 1"
      "cy < ?Y0 + brushSize ts \<longleftrightarrow> cy \<le> ?Y0 + brushSize ts - 1"
      by linarith+
    ultimately show ?thesis by (simp only: newColor_def)
  qed
  show "\<exists>new. applyTool s (Some g) sz ts x y =
            (s @ [map Some new], if new \<noteq> cs then Some (length s) else None) \<and>
          length new = length cs \<and>
          (\<forall>cx cy. 0 \<le> cx \<and> cx < ?n \<and> 0 \<le> cy \<and> cy < ?n \<longrightarrow>
             new ! nat (cy * ?n + cx) =
               (if ?X0 \<le> cx \<and> cx \<le> ?X0 + brushSize ts - 1 \<and> ?Y0 \<le> cy \<and> cy \<le> ?Y0 + brushSize ts - 1
                then (if activeTool ts = pencil then drawColor ts else transparent)
                else cs ! nat (cy * ?n + cx)))"
  proof (intro exI[of _ new] conjI allI impI)
    show "applyTool s (Some g) sz ts x y =
        (s @ [map Some new], if new \<noteq> cs then Some (length s) else None)"
      by (fact run)
    show "length new = length cs" by (fact len)
    fix cx cy
    assume "0 \<le> cx \<and> cx < ?n \<and> 0 \<le> cy \<and> cy < ?n"
    then show "new ! nat (cy * ?n + cx) =
        (if ?X0 \<le> cx \<and> cx \<le> ?X0 + brushSize ts - 1 \<and> ?Y0 \<le> cy \<and> cy \<le> ?Y0 + brushSize ts - 1
         then (if activeTool ts = pencil then drawColor ts else transparent)
         else cs ! nat (cy * ?n + cx))"
      by (rule cell)
  qed
qed

theorem brush_footprint_witness:
  "applyTool [map Some (replicate 1024 transparent)] (Some 0) XS
      \<lparr> activeTool = pencil, brushSize = 3, drawColor = ''#0000ff'' \<rparr> (-1) 0 =
     ([map Some (replicate 1024 transparent)], None) \<and>
   (\<exists>new. applyTool [map Some (replicate 1024 transparent)] (Some 0) XS
        \<lparr> activeTool = pencil, brushSize = 3, drawColor = ''#0000ff'' \<rparr> 0 0 =
       ([map Some (replicate 1024 transparent), map Some new], Some 1) \<and>
     length new = 1024 \<and> new ! 33 = ''#0000ff'' \<and> new ! 34 = transparent)"
proof -
  let ?cs = "replicate 1024 transparent"
  let ?s = "[map Some ?cs]"
  let ?ts = "\<lparr> activeTool = pencil, brushSize = 3, drawColor = ''#0000ff'' \<rparr>"
  have hyps: "activeTool ?ts = pencil \<or> activeTool ?ts = eraser" "0 < length ?s"
    "?s ! 0 = map Some ?cs" "int (length ?cs) = PixelSize_value XS * PixelSize_value XS"
    by simp_all
  from brush_footprint[OF hyps, of "-1" 0]
  have outside: "applyTool ?s (Some 0) XS ?ts (-1) 0 = (?s, None)" by simp
  from brush_footprint[OF hyps, of 0 0] obtain new where
    run: "applyTool ?s (Some 0) XS ?ts 0 0 = (?s @ [map Some new], if new \<noteq> ?cs then Some (length ?s) else None)"
    and len: "length new = length ?cs"
    and cells: "\<forall>cx cy. 0 \<le> cx \<and> cx < PixelSize_value XS \<and> 0 \<le> cy \<and> cy < PixelSize_value XS \<longrightarrow>
             new ! nat (cy * PixelSize_value XS + cx) =
               (if 0 - brushSize ?ts div 2 \<le> cx \<and> cx \<le> 0 - brushSize ?ts div 2 + brushSize ?ts - 1 \<and>
                   0 - brushSize ?ts div 2 \<le> cy \<and> cy \<le> 0 - brushSize ?ts div 2 + brushSize ?ts - 1
                then (if activeTool ?ts = pencil then drawColor ?ts else transparent)
                else ?cs ! nat (cy * PixelSize_value XS + cx))"
    by auto
  from cells[rule_format, of 1 1] have c33: "new ! 33 = ''#0000ff''" by simp
  from cells[rule_format, of 2 1] have c34: "new ! 34 = transparent" by simp
  have "new ! 33 = ?cs ! 33" if "new = ?cs"
    using that by (rule arg_cong[where f = "\<lambda>xs. xs ! 33"])
  with c33 have "new \<noteq> ?cs" by auto
  with run len c33 c34 outside show ?thesis by simp
qed

lemma cellsOf_cases:
  assumes "i \<in> cellsOf n X0 X1 Y0 Y1"
  obtains cx cy where "i = nat (cy * n + cx)" "0 \<le> cx" "cx < n" "0 \<le> cy" "cy < n"
    "X0 \<le> cx" "cx < X1" "Y0 \<le> cy" "cy < Y1"
  using assms by (auto simp: cellsOf_def)

text \<open>
  Claim C5. Whatever the tool and the arguments, the arrays of the store before the call are
  as they were afterwards; so is the caller's grid. With the pencil, on an array of
  \<open>size * size\<close> strings in which every cell of the brush square inside the grid holds the draw
  colour, \<^verbatim>\<open>onGridUpdate\<close> is not called.
\<close>

theorem noop_detection:
  "take (length s) (fst (applyTool s grid sz ts x y)) = s \<and>
   (g < length s \<longrightarrow> fst (applyTool s (Some g) sz ts x y) ! g = s ! g) \<and>
   (activeTool ts = pencil \<and> g < length s \<and> s ! g = map Some cs \<and>
    int (length cs) = PixelSize_value sz * PixelSize_value sz \<and>
    (\<forall>cx cy. 0 \<le> cx \<and> cx < PixelSize_value sz \<and> 0 \<le> cy \<and> cy < PixelSize_value sz \<and>
        x - brushSize ts div 2 \<le> cx \<and> cx \<le> x - brushSize ts div 2 + brushSize ts - 1 \<and>
        y - brushSize ts div 2 \<le> cy \<and> cy \<le> y - brushSize ts div 2 + brushSize ts - 1 \<longrightarrow>
        cs ! nat (cy * PixelSize_value sz + cx) = drawColor ts) \<longrightarrow>
    snd (applyTool s (Some g) sz ts x y) = None)"
proof (intro conjI impI)
  show "take (length s) (fst (applyTool s grid sz ts x y)) = s"
    by (rule applyTool_frame)
next
  assume g: "g < length s"
  have "fst (applyTool s (Some g) sz ts x y) ! g =
      take (length s) (fst (applyTool s (Some g) sz ts x y)) ! g"
    using g by simp
  then show "fst (applyTool s (Some g) sz ts x y) ! g = s ! g"
    by (simp only: applyTool_frame)
next
  let ?n = "PixelSize_value sz"
  let ?X0 = "x - brushSize ts div 2"
  let ?Y0 = "y - brushSize ts div 2"
  assume a: "activeTool ts = pencil \<and> g < length s \<and> s ! g = map Some cs \<and>
    int (length cs) = ?n * ?n \<and>
    (\<forall>cx cy. 0 \<le> cx \<and> cx < ?n \<and> 0 \<le> cy \<and> cy < ?n \<and>
        ?X0 \<le> cx \<and> cx \<le> ?X0 + brushSize ts - 1 \<and>
        ?Y0 \<le> cy \<and> cy \<le> ?Y0 + brushSize ts - 1 \<longrightarrow>
        cs ! nat (cy * ?n + cx) = drawColor ts)"
  show "snd (applyTool s (Some g) sz ts x y) = None"
  proof (cases "x < 0 \<or> ?n \<le> x \<or> y < 0 \<or> ?n \<le> y")
    case True
    then show ?thesis by (simp add: applyTool_def Let_def)
  next
    case False
    define new where "new =
      map (\<lambda>i. if i \<in> cellsOf ?n ?X0 (?X0 + brushSize ts) ?Y0 (?Y0 + brushSize ts)
                then newColor ts else cs ! i) [0..<length cs]"
    have run: "applyTool s (Some g) sz ts x y =
        (s @ [map Some new], if new \<noteq> cs then Some (length s) else None)"
      using a False new_def by (intro applyTool_brush_dense) simp_all
    have "new = cs"
    proof (rule nth_equalityI)
      show "length new = length cs" by (simp add: new_def)
    next
      fix i
      assume "i < length new"
      then have i: "i < length cs" by (simp add: new_def)
      show "new ! i = cs ! i"
      proof (cases "i \<in> cellsOf ?n ?X0 (?X0 + brushSize ts) ?Y0 (?Y0 + brushSize ts)")
        case True
        then obtain cx cy where c: "i = nat (cy * ?n + cx)" "0 \<le> cx" "cx < ?n" "0 \<le> cy" "cy < ?n"
          "?X0 \<le> cx" "cx < ?X0 + brushSize ts" "?Y0 \<le> cy" "cy < ?Y0 + brushSize ts"
          by (rule cellsOf_cases)
        then have "cs ! nat (cy * ?n + cx) = drawColor ts"
          using a by (intro a[THEN conjunct2, THEN conjunct2, THEN conjunct2, THEN conjunct2, rule_format]) simp
        with True i c(1) a show ?thesis by (simp add: new_def newColor_def)
      next
        case False
        with i show ?thesis by (simp add: new_def)
      qed
    qed
    with run show ?thesis by simp
  qed
qed

theorem noop_detection_witness:
  "snd (applyTool [map Some (replicate 1024 ''#ffffff'')] (Some 0) XS
      \<lparr> activeTool = pencil, brushSize = 5, drawColor = ''#ffffff'' \<rparr> 3 3) = None \<and>
   fst (applyTool [map Some (replicate 1024 ''#ffffff'')] (Some 0) XS
      \<lparr> activeTool = pencil, brushSize = 5, drawColor = ''#ffffff'' \<rparr> 3 3) ! 0 =
     map Some (replicate 1024 ''#ffffff'') \<and>
   take 1 (fst (applyTool [map Some (replicate 1024 ''#ffffff'')] (Some 0) XS
      \<lparr> activeTool = eraser, brushSize = 5, drawColor = ''#ffffff'' \<rparr> 3 3)) =
     [map Some (replicate 1024 ''#ffffff'')]"
proof -
  let ?cs = "replicate 1024 ''#ffffff''"
  let ?s = "[map Some ?cs]"
  let ?ts = "\<lparr> activeTool = pencil, brushSize = 5, drawColor = ''#ffffff'' \<rparr>"
  let ?ts' = "\<lparr> activeTool = eraser, brushSize = 5, drawColor = ''#ffffff'' \<rparr>"
  have cell: "?cs ! nat (cy * PixelSize_value XS + cx) = drawColor ?ts"
    if "0 \<le> cx \<and> cx < PixelSize_value XS \<and> 0 \<le> cy \<and> cy < PixelSize_value XS" for cx cy
  proof -
    have "nat (cy * PixelSize_value XS + cx) < 1024" using that by simp linarith
    then show ?thesis by simp
  qed
  have "snd (applyTool ?s (Some 0) XS ?ts 3 3) = None"
    using noop_detection[of ?s "Some 0" XS ?ts 3 3 0 ?cs] cell by simp
  moreover have "fst (applyTool ?s (Some 0) XS ?ts 3 3) ! 0 = map Some ?cs"
    using noop_detection[of ?s "Some 0" XS ?ts 3 3 0 ?cs] by simp
  moreover have "take 1 (fst (applyTool ?s (Some 0) XS ?ts' 3 3)) = ?s"
    using noop_detection[of ?s "Some 0" XS ?ts' 3 3 0 ?cs] by simp
  ultimately show ?thesis by blast
qed

text \<open>
  Claim C10. With the magic eraser active, the result of \<open>applyTool\<close> (the store and the grid
  handed to \<^verbatim>\<open>onGridUpdate\<close>) is the same for any two tool states, whatever their brush
  sizes and draw colours.
\<close>

theorem magic_eraser_noninterference:
  "activeTool ts = magic_eraser \<Longrightarrow> activeTool ts' = magic_eraser \<Longrightarrow>
   applyTool s grid sz ts x y = applyTool s grid sz ts' x y"
  by (cases grid) (simp_all add: applyTool_def Let_def)

theorem magic_eraser_noninterference_witness:
  "activeTool \<lparr> activeTool = magic_eraser, brushSize = 1, drawColor = ''#ffffff'' \<rparr> = magic_eraser \<and>
   activeTool \<lparr> activeTool = magic_eraser, brushSize = 5, drawColor = ''#123456'' \<rparr> = magic_eraser \<and>
   applyTool [replicate 1024 (Some ''#ff0000'')] (Some 0) XS
       \<lparr> activeTool = magic_eraser, brushSize = 1, drawColor = ''#ffffff'' \<rparr> 3 4
   = applyTool [replicate 1024 (Some ''#ff0000'')] (Some 0) XS
       \<lparr> activeTool = magic_eraser, brushSize = 5, drawColor = ''#123456'' \<rparr> 3 4"
  using magic_eraser_noninterference[of "\<lparr> activeTool = magic_eraser, brushSize = 1, drawColor = ''#ffffff'' \<rparr>"
      "\<lparr> activeTool = magic_eraser, brushSize = 5, drawColor = ''#123456'' \<rparr>"
      "[replicate 1024 (Some ''#ff0000'')]" "Some 0" XS 3 4]
  by simp

end
